theory Spec2Isabelle
  imports Main
begin

section \<open>The SER packer of MMOCR: data model\<close>

text \<open>
  The development embeds \<^verbatim>\<open>mmocr/datasets/preparers/packers/ser_packer.py\<close>:
  the two methods \<^verbatim>\<open>SERPacker.pack_instance\<close> and \<^verbatim>\<open>SERPacker.add_meta\<close>
  with its local function \<^verbatim>\<open>get_bio_label_list\<close>.

  The values an annotation dict can hold are Python objects. The fragment needed here
  has \<^verbatim>\<open>None\<close>, strings, integers, lists and dicts with string keys (a word of
  \<^verbatim>\<open>words\<close> is such a dict); numbers are integers.
\<close>

datatype pyval =
    VNone
  | VStr string
  | VInt int
  | VList "pyval list"
  | VDict "(string \<times> pyval) list"

text \<open>Python's truth value of an object, as \<^verbatim>\<open>or\<close> and \<^verbatim>\<open>assert\<close> test it.\<close>

fun truthy :: "pyval \<Rightarrow> bool" where
  "truthy VNone = False"
| "truthy (VStr s) = (s \<noteq> [])"
| "truthy (VInt n) = (n \<noteq> 0)"
| "truthy (VList xs) = (xs \<noteq> [])"
| "truthy (VDict kvs) = (kvs \<noteq> [])"

text \<open>Whether \<^verbatim>\<open>set(...)\<close> accepts the object as an element: lists and dicts are unhashable.\<close>

fun hashable :: "pyval \<Rightarrow> bool" where
  "hashable (VList xs) = False"
| "hashable (VDict kvs) = False"
| "hashable v = True"

text \<open>
  One parsed annotation is a dict from key names to values. \<^verbatim>\<open>'words' in ins\<close> is
  membership in the domain; \<^verbatim>\<open>ins.get(k, None)\<close> is \<open>dict_get\<close>.
\<close>

type_synonym raw_instance = "string \<rightharpoonup> pyval"

definition dict_get :: "raw_instance \<Rightarrow> string \<Rightarrow> pyval" where
  "dict_get ins k = (case ins k of None \<Rightarrow> VNone | Some v \<Rightarrow> v)"

text \<open>The exceptions the two methods can leave through.\<close>

datatype error =
    ImageReadError
  | AssertionError
  | TypeError
  | AttributeError

text \<open>
  The dict \<^verbatim>\<open>packed_instances['instances']\<close>: the keys \<^verbatim>\<open>texts\<close>, \<^verbatim>\<open>boxes\<close> and
  \<^verbatim>\<open>labels\<close> are always there, the key \<^verbatim>\<open>words\<close> only after the \<^verbatim>\<open>update\<close> of
  line 132, so it is optional.
\<close>

record packed_instances =
  texts :: "pyval list"
  boxes :: "pyval list"
  labels :: "pyval list"
  words :: "pyval list option"

record packed_document =
  instances :: packed_instances
  img_path :: string
  height :: nat
  width :: nat

text \<open>
  The envelope \<^verbatim>\<open>add_meta\<close> returns. \<open>meta_labels\<close> is the key \<^verbatim>\<open>'labels'\<close> of
  \<^verbatim>\<open>metainfo\<close> (the name \<open>labels\<close> is taken by the document's field).
\<close>

record meta_info =
  meta_labels :: "pyval list"
  id2label :: "nat \<rightharpoonup> string"
  label2id :: "string \<rightharpoonup> nat"

record envelope =
  metainfo :: meta_info
  data_list :: "packed_document list"

section \<open>pack_instance\<close>

text \<open>
  The text of the one warning (lines 108 to 110; the two literals are concatenated
  without a blank).
\<close>

definition words_warning :: string where
  "words_warning =
     ''Not all instance has `words` key,so final MMOCR format SER instance will not have `words` key''"

text \<open>
  The local lists of the method. \<^verbatim>\<open>words_per_doc\<close> is bound only when \<^verbatim>\<open>has_words\<close>
  holds (line 106); \<open>None\<close> is the unbound name.
\<close>

record pack_state =
  texts_per_doc :: "pyval list"
  boxes_per_doc :: "pyval list"
  labels_per_doc :: "pyval list"
  words_per_doc :: "pyval list option"

text \<open>Line 104: \<^verbatim>\<open>all(['words' in ins for ins in instances])\<close>.\<close>

definition has_words :: "raw_instance list \<Rightarrow> bool" where
  "has_words inss = list_all (\<lambda>ins. ins ''words'' \<noteq> None) inss"

text \<open>Lines 101 to 106: the state before the loop.\<close>

definition init_state :: "bool \<Rightarrow> pack_state" where
  "init_state hw =
     \<lparr>texts_per_doc = [], boxes_per_doc = [], labels_per_doc = [],
      words_per_doc = (if hw then Some [] else None)\<rparr>"

text \<open>Lines 113 to 122: the body of the loop, for one instance.\<close>

definition pack_one :: "bool \<Rightarrow> pack_state \<Rightarrow> raw_instance \<Rightarrow> error + pack_state" where
  "pack_one hw st ins =
     (let text = dict_get ins ''text'';
          box = dict_get ins ''box'';
          label = dict_get ins ''label''
      in if \<not> (truthy text \<or> truthy box \<or> truthy label) then Inl AssertionError
         else Inr (st\<lparr>texts_per_doc := texts_per_doc st @ [text],
                      boxes_per_doc := boxes_per_doc st @ [box],
                      labels_per_doc := labels_per_doc st @ [label],
                      words_per_doc :=
                        (if hw then map_option (\<lambda>ws. ws @ [dict_get ins ''words'']) (words_per_doc st)
                         else words_per_doc st)\<rparr>))"

text \<open>Line 112: the loop over the instances, left at the first failed assertion.\<close>

fun pack_loop :: "bool \<Rightarrow> pack_state \<Rightarrow> raw_instance list \<Rightarrow> error + pack_state" where
  "pack_loop hw st [] = Inr st"
| "pack_loop hw st (ins # rest) =
     (case pack_one hw st ins of
        Inl e \<Rightarrow> Inl e
      | Inr st' \<Rightarrow> pack_loop hw st' rest)"

text \<open>
  The method. Its collaborators are parameters: \<open>imread p\<close> is \<^verbatim>\<open>mmcv.imread(p).shape[:2]\<close>,
  the pair of height and width, or \<open>None\<close> when the image cannot be read; \<open>relpath\<close> is
  \<^verbatim>\<open>os.path.relpath\<close> and \<open>data_root\<close> is \<^verbatim>\<open>self.data_root\<close>.

  The result pairs the warnings emitted (calls of \<^verbatim>\<open>warnings.warn\<close>, in order) with the
  outcome: the warning of line 108 is emitted before the loop, so it is there also when
  an assertion of the loop fails afterwards. Assertions are enabled.
\<close>

definition pack_instance ::
  "(string \<Rightarrow> (nat \<times> nat) option) \<Rightarrow> (string \<Rightarrow> string \<Rightarrow> string) \<Rightarrow> string \<Rightarrow>
   string \<times> raw_instance list \<Rightarrow> string list \<times> (error + packed_document)" where
  "pack_instance imread relpath data_root sample =
     (case sample of (path, inss) \<Rightarrow>
        (case imread path of
           None \<Rightarrow> ([], Inl ImageReadError)
         | Some (h, w) \<Rightarrow>
             (let hw = has_words inss;
                  warned = (if hw then [] else [words_warning])
              in (warned,
                  (case pack_loop hw (init_state hw) inss of
                     Inl e \<Rightarrow> Inl e
                   | Inr st \<Rightarrow>
                       Inr \<lparr>instances =
                              \<lparr>texts = texts_per_doc st,
                               boxes = boxes_per_doc st,
                               labels = labels_per_doc st,
                               words = (if hw then words_per_doc st else None)\<rparr>,
                            img_path = relpath path data_root,
                            height = h,
                            width = w\<rparr>)))))"

section \<open>add_meta\<close>

text \<open>
  Lines 146 to 154, \<^verbatim>\<open>get_bio_label_list\<close>. \<open>upper\<close> stands for \<^verbatim>\<open>str.upper\<close>. A label
  that is not a string is not equal to \<^verbatim>\<open>'other'\<close>, and has no method \<^verbatim>\<open>upper\<close>.
\<close>

definition bio_step :: "(string \<Rightarrow> string) \<Rightarrow> string list \<Rightarrow> pyval \<Rightarrow> error + string list" where
  "bio_step upper bio_label_list label =
     (if label = VStr ''other'' then Inr (''O'' # bio_label_list)
      else (case label of
              VStr l \<Rightarrow> Inr (bio_label_list @ [''B-'' @ upper l] @ [''I-'' @ upper l])
            | _ \<Rightarrow> Inl AttributeError))"

fun bio_loop :: "(string \<Rightarrow> string) \<Rightarrow> string list \<Rightarrow> pyval list \<Rightarrow> error + string list" where
  "bio_loop upper acc [] = Inr acc"
| "bio_loop upper acc (label # rest) =
     (case bio_step upper acc label of
        Inl e \<Rightarrow> Inl e
      | Inr acc' \<Rightarrow> bio_loop upper acc' rest)"

definition get_bio_label_list :: "(string \<Rightarrow> string) \<Rightarrow> pyval list \<Rightarrow> error + string list" where
  "get_bio_label_list upper ls = bio_loop upper [] ls"

text \<open>Lines 156 to 158: the labels of all documents, concatenated in order.\<close>

definition collect_labels :: "packed_document list \<Rightarrow> pyval list" where
  "collect_labels sample = foldl (\<lambda>ls s. ls @ labels (instances s)) [] sample"

text \<open>
  A dict comprehension stores the pairs in order; a key stored twice keeps the value
  stored last.
\<close>

definition dict_of :: "('k \<times> 'v) list \<Rightarrow> ('k \<rightharpoonup> 'v)" where
  "dict_of kvs = foldl (\<lambda>m (k, v). m(k \<mapsto> v)) Map.empty kvs"

text \<open>
  The method. \<open>set_order\<close> stands for \<^verbatim>\<open>lambda ls: list(set(ls))\<close>, whose order Python
  leaves open; \<^verbatim>\<open>set\<close> raises \<^verbatim>\<open>TypeError\<close> on an unhashable element.
\<close>

definition add_meta ::
  "(pyval list \<Rightarrow> pyval list) \<Rightarrow> (string \<Rightarrow> string) \<Rightarrow> packed_document list \<Rightarrow> error + envelope" where
  "add_meta set_order upper sample =
     (let ls = collect_labels sample
      in if \<not> list_all hashable ls then Inl TypeError
         else (let org_label_list = set_order ls
               in (case get_bio_label_list upper org_label_list of
                     Inl e \<Rightarrow> Inl e
                   | Inr bio_label_list \<Rightarrow>
                       Inr \<lparr>metainfo =
                              \<lparr>meta_labels = org_label_list,
                               id2label = dict_of (enumerate 0 bio_label_list),
                               label2id = dict_of (map (\<lambda>(k, v). (v, k)) (enumerate 0 bio_label_list))\<rparr>,
                            data_list = sample\<rparr>)))"

text \<open>
  What \<open>set_order\<close> is known to do on a list: each element once, no other element.
\<close>

definition dedup_of :: "pyval list \<Rightarrow> pyval list \<Rightarrow> bool" where
  "dedup_of ls org = (distinct org \<and> set org = set ls)"

section \<open>Concrete collaborators\<close>

text \<open>
  Instances of the parameters, for evaluating the methods on concrete inputs:
  an image reader that finds the same shape at every path, a \<open>relpath\<close> for a path that
  lies under the root (\<^verbatim>\<open>root/imgs/x.jpg\<close> relative to \<^verbatim>\<open>root\<close>), and \<^verbatim>\<open>str.upper\<close> on
  ASCII strings.
\<close>

definition any_image :: "nat \<times> nat \<Rightarrow> string \<Rightarrow> (nat \<times> nat) option" where
  "any_image shape path = Some shape"

definition relpath_under :: "string \<Rightarrow> string \<Rightarrow> string" where
  "relpath_under path start =
     (if take (length start + 1) path = start @ ''/'' then drop (length start + 1) path else path)"

definition upper_char :: "char \<Rightarrow> char" where
  "upper_char c =
     (case map_of (zip ''abcdefghijklmnopqrstuvwxyz'' ''ABCDEFGHIJKLMNOPQRSTUVWXYZ'') c of
        None \<Rightarrow> c
      | Some u \<Rightarrow> u)"

definition ascii_upper :: "string \<Rightarrow> string" where
  "ascii_upper s = map upper_char s"

section \<open>Closed forms of the two loops\<close>

text \<open>The condition of the assertion of line 116.\<close>

definition passes_check :: "raw_instance \<Rightarrow> bool" where
  "passes_check ins =
     (truthy (dict_get ins ''text'') \<or> truthy (dict_get ins ''box'') \<or> truthy (dict_get ins ''label''))"

text \<open>The state after the loop has taken the instances \<open>inss\<close>, all of them passing.\<close>

definition appended :: "bool \<Rightarrow> pack_state \<Rightarrow> raw_instance list \<Rightarrow> pack_state" where
  "appended hw st inss =
     st\<lparr>texts_per_doc := texts_per_doc st @ map (\<lambda>i. dict_get i ''text'') inss,
        boxes_per_doc := boxes_per_doc st @ map (\<lambda>i. dict_get i ''box'') inss,
        labels_per_doc := labels_per_doc st @ map (\<lambda>i. dict_get i ''label'') inss,
        words_per_doc :=
          (if hw then map_option (\<lambda>ws. ws @ map (\<lambda>i. dict_get i ''words'') inss) (words_per_doc st)
           else words_per_doc st)\<rparr>"

definition is_str :: "pyval \<Rightarrow> bool" where
  "is_str v = (case v of VStr s \<Rightarrow> True | _ \<Rightarrow> False)"

text \<open>The tags one label other than \<^verbatim>\<open>'other'\<close> appends.\<close>

definition bio_tags :: "(string \<Rightarrow> string) \<Rightarrow> pyval \<Rightarrow> string list" where
  "bio_tags upper label = (case label of VStr l \<Rightarrow> [''B-'' @ upper l, ''I-'' @ upper l] | _ \<Rightarrow> [])"

text \<open>
  What the expansion loop leaves, started on \<open>acc\<close>: one \<open>O\<close> in front for each
  \<^verbatim>\<open>'other'\<close>, and behind \<open>acc\<close> the pairs of the remaining labels in their order.
\<close>

definition bio_closed :: "(string \<Rightarrow> string) \<Rightarrow> string list \<Rightarrow> pyval list \<Rightarrow> string list" where
  "bio_closed upper acc ls =
     replicate (count_list ls (VStr ''other'')) ''O'' @ acc @
     concat (map (bio_tags upper) (filter (\<lambda>l. l \<noteq> VStr ''other'') ls))"

text \<open>The document \<^verbatim>\<open>pack_instance\<close> builds from instances that all pass the assertion.\<close>

definition packed :: "string \<Rightarrow> nat \<Rightarrow> nat \<Rightarrow> raw_instance list \<Rightarrow> packed_document" where
  "packed rel h w inss =
     \<lparr>instances =
        \<lparr>texts = map (\<lambda>i. dict_get i ''text'') inss,
         boxes = map (\<lambda>i. dict_get i ''box'') inss,
         labels = map (\<lambda>i. dict_get i ''label'') inss,
         words = (if has_words inss then Some (map (\<lambda>i. dict_get i ''words'') inss) else None)\<rparr>,
      img_path = rel, height = h, width = w\<rparr>"

section \<open>Example inputs\<close>

text \<open>
  Annotations for evaluating the methods: the two instances of the specification's
  end-to-end example, an instance with word boxes, one without a label, and one whose
  three fields are all empty.
\<close>

definition ins_question :: raw_instance where
  "ins_question =
     [''text'' \<mapsto> VStr ''a'', ''box'' \<mapsto> VList [VInt 0, VInt 0, VInt 1, VInt 1],
      ''label'' \<mapsto> VStr ''question'']"

definition ins_other :: raw_instance where
  "ins_other =
     [''text'' \<mapsto> VStr ''b'', ''box'' \<mapsto> VList [VInt 1, VInt 1, VInt 2, VInt 2],
      ''label'' \<mapsto> VStr ''other'']"

definition word_c :: pyval where
  "word_c = VList [VDict [(''box'', VList [VInt 2, VInt 2, VInt 3, VInt 3]), (''text'', VStr ''c'')]]"

definition ins_header_words :: raw_instance where
  "ins_header_words =
     [''text'' \<mapsto> VStr ''c'', ''box'' \<mapsto> VList [VInt 2, VInt 2, VInt 3, VInt 3],
      ''label'' \<mapsto> VStr ''header'', ''words'' \<mapsto> word_c]"

definition ins_no_label :: raw_instance where
  "ins_no_label = [''text'' \<mapsto> VStr ''d'', ''words'' \<mapsto> VList []]"

definition ins_blank :: raw_instance where
  "ins_blank = [''text'' \<mapsto> VStr [], ''box'' \<mapsto> VList []]"

text \<open>
  Two instances whose labels differ in case only, three packed documents, and two more
  iteration orders for deduplicated labels besides \<open>remdups\<close> (which keeps the last
  occurrences): first occurrences, and \<open>remdups\<close> reversed.
\<close>

definition ins_answer :: raw_instance where
  "ins_answer = [''text'' \<mapsto> VStr ''e'', ''label'' \<mapsto> VStr ''answer'']"

definition ins_Answer :: raw_instance where
  "ins_Answer = [''text'' \<mapsto> VStr ''f'', ''label'' \<mapsto> VStr ''Answer'']"

definition doc_example :: packed_document where
  "doc_example = packed ''imgs/x.jpg'' 200 100 [ins_question, ins_other]"

definition doc_case_clash :: packed_document where
  "doc_case_clash = packed ''imgs/y.jpg'' 200 100 [ins_answer, ins_Answer]"

definition doc_null_label :: packed_document where
  "doc_null_label = packed ''imgs/z.jpg'' 200 100 [ins_question, ins_no_label]"

definition first_seen_order :: "pyval list \<Rightarrow> pyval list" where
  "first_seen_order ls = rev (remdups (rev ls))"

definition reversed_order :: "pyval list \<Rightarrow> pyval list" where
  "reversed_order ls = rev (remdups ls)"

section \<open>Lemmas on the loops\<close>

lemmas example_defs =
  ins_question_def ins_other_def ins_header_words_def ins_no_label_def ins_blank_def

subsection \<open>The loop of pack_instance\<close>

lemma appended_Nil: "appended hw st [] = st"
  by (cases "words_per_doc st") (simp_all add: appended_def)

lemma appended_Cons: "appended hw (appended hw st [ins]) rest = appended hw st (ins # rest)"
  by (cases "words_per_doc st") (simp_all add: appended_def)

lemma pack_one_pass: "passes_check ins \<Longrightarrow> pack_one hw st ins = Inr (appended hw st [ins])"
  by (simp add: pack_one_def passes_check_def appended_def Let_def)

lemma pack_one_fail: "\<not> passes_check ins \<Longrightarrow> pack_one hw st ins = Inl AssertionError"
  by (simp add: pack_one_def passes_check_def Let_def)

lemma pack_loop_pass:
  "list_all passes_check inss \<Longrightarrow> pack_loop hw st inss = Inr (appended hw st inss)"
proof (induction inss arbitrary: st)
  case Nil
  show ?case by (simp add: appended_Nil)
next
  case (Cons ins rest)
  then show ?case by (simp add: pack_one_pass appended_Cons)
qed

lemma pack_loop_fail:
  "\<not> list_all passes_check inss \<Longrightarrow> pack_loop hw st inss = Inl AssertionError"
proof (induction inss arbitrary: st)
  case Nil
  then show ?case by simp
next
  case (Cons ins rest)
  show ?case
  proof (cases "passes_check ins")
    case True
    with Cons show ?thesis by (simp add: pack_one_pass)
  next
    case False
    then show ?thesis by (simp add: pack_one_fail)
  qed
qed

subsection \<open>The loop of get_bio_label_list\<close>

lemma bio_step_other: "bio_step upper acc (VStr ''other'') = Inr (''O'' # acc)"
  by (simp add: bio_step_def)

lemma bio_step_str:
  "l \<noteq> ''other'' \<Longrightarrow> bio_step upper acc (VStr l) = Inr (acc @ [''B-'' @ upper l, ''I-'' @ upper l])"
  by (simp add: bio_step_def)

lemma bio_step_not_str: "\<not> is_str v \<Longrightarrow> bio_step upper acc v = Inl AttributeError"
  by (cases v) (simp_all add: bio_step_def is_str_def)

lemma bio_step_is_str:
  "is_str v \<Longrightarrow> bio_step upper acc v =
     Inr (if v = VStr ''other'' then ''O'' # acc else acc @ bio_tags upper v)"
  by (cases v) (simp_all add: bio_step_def is_str_def bio_tags_def)

lemma replicate_snoc_cons: "replicate n x @ x # ys = x # replicate n x @ ys"
  by (induction n) simp_all

lemma bio_loop_ok:
  "list_all is_str ls \<Longrightarrow> bio_loop upper acc ls = Inr (bio_closed upper acc ls)"
proof (induction ls arbitrary: acc)
  case Nil
  show ?case by (simp add: bio_closed_def)
next
  case (Cons l rest)
  then have str: "is_str l" and rest: "list_all is_str rest" by simp_all
  show ?case
  proof (cases "l = VStr ''other''")
    case True
    then show ?thesis
      using Cons.IH [OF rest] by (simp add: bio_step_other bio_closed_def replicate_snoc_cons)
  next
    case False
    then show ?thesis
      using Cons.IH [OF rest] str by (simp add: bio_step_is_str bio_closed_def)
  qed
qed

lemma bio_loop_fail:
  "\<not> list_all is_str ls \<Longrightarrow> bio_loop upper acc ls = Inl AttributeError"
proof (induction ls arbitrary: acc)
  case Nil
  then show ?case by simp
next
  case (Cons l rest)
  show ?case
  proof (cases "is_str l")
    case True
    with Cons show ?thesis by (simp add: bio_step_is_str)
  next
    case False
    then show ?thesis by (simp add: bio_step_not_str)
  qed
qed

subsection \<open>pack_instance in closed form\<close>

lemma pack_instance_unreadable:
  "imread path = None \<Longrightarrow>
   pack_instance imread relpath data_root (path, inss) = ([], Inl ImageReadError)"
  by (simp add: pack_instance_def)

lemma pack_instance_pass:
  "imread path = Some (h, w) \<Longrightarrow> list_all passes_check inss \<Longrightarrow>
   pack_instance imread relpath data_root (path, inss) =
     (if has_words inss then [] else [words_warning],
      Inr (packed (relpath path data_root) h w inss))"
  by (simp add: pack_instance_def pack_loop_pass appended_def init_state_def packed_def Let_def)

lemma pack_instance_fail:
  "imread path = Some (h, w) \<Longrightarrow> \<not> list_all passes_check inss \<Longrightarrow>
   pack_instance imread relpath data_root (path, inss) =
     (if has_words inss then [] else [words_warning], Inl AssertionError)"
  by (simp add: pack_instance_def pack_loop_fail Let_def)

lemma pack_instance_Inr:
  assumes "pack_instance imread relpath data_root (path, inss) = (ws, Inr doc)"
  shows "\<exists>h w. imread path = Some (h, w) \<and> list_all passes_check inss \<and>
           doc = packed (relpath path data_root) h w inss \<and>
           ws = (if has_words inss then [] else [words_warning])"
proof (cases "imread path")
  case None
  with assms show ?thesis by (simp add: pack_instance_unreadable)
next
  case (Some shape)
  obtain h w where shape: "shape = (h, w)" by (cases shape)
  show ?thesis
  proof (cases "list_all passes_check inss")
    case True
    with assms Some shape show ?thesis
      using pack_instance_pass [of imread path h w inss relpath data_root] by auto
  next
    case False
    with assms Some shape show ?thesis
      using pack_instance_fail [of imread path h w inss relpath data_root] by auto
  qed
qed

subsection \<open>The two dict comprehensions\<close>

lemma dict_of_snoc: "dict_of (kvs @ [(k, v)]) = (dict_of kvs)(k \<mapsto> v)"
  by (simp add: dict_of_def)

lemma dict_of_Nil: "dict_of [] = Map.empty"
  by (simp add: dict_of_def)

lemma enumerate_snoc: "enumerate 0 (xs @ [x]) = enumerate 0 xs @ [(length xs, x)]"
  by (simp add: enumerate_append_eq)

lemma id2label_nth:
  "dict_of (enumerate 0 xs) i = (if i < length xs then Some (xs ! i) else None)"
proof (induction xs rule: rev_induct)
  case Nil
  show ?case by (simp add: dict_of_Nil)
next
  case (snoc x xs)
  then show ?case by (simp add: enumerate_snoc dict_of_snoc nth_append)
qed

lemma label2id_snoc:
  "dict_of (map (\<lambda>(k, v). (v, k)) (enumerate 0 (xs @ [x]))) =
     (dict_of (map (\<lambda>(k, v). (v, k)) (enumerate 0 xs)))(x \<mapsto> length xs)"
  by (simp add: enumerate_snoc dict_of_snoc)

lemma label2id_Some:
  "dict_of (map (\<lambda>(k, v). (v, k)) (enumerate 0 xs)) t = Some k \<Longrightarrow>
     k < length xs \<and> xs ! k = t \<and> (\<forall>j < length xs. xs ! j = t \<longrightarrow> j \<le> k)"
proof (induction xs arbitrary: k rule: rev_induct)
  case Nil
  then show ?case by (simp add: dict_of_Nil)
next
  case (snoc x xs)
  show ?case
  proof (cases "t = x")
    case True
    with snoc.prems have "k = length xs" by (simp add: label2id_snoc)
    then show ?thesis using True by (auto simp: nth_append)
  next
    case False
    with snoc.prems have "dict_of (map (\<lambda>(k, v). (v, k)) (enumerate 0 xs)) t = Some k"
      by (simp add: label2id_snoc)
    from snoc.IH [OF this] False show ?thesis
      by (auto simp: nth_append less_Suc_eq)
  qed
qed

lemma label2id_None:
  "(dict_of (map (\<lambda>(k, v). (v, k)) (enumerate 0 xs)) t = None) = (t \<notin> set xs)"
proof (induction xs rule: rev_induct)
  case Nil
  show ?case by (simp add: dict_of_Nil)
next
  case (snoc x xs)
  then show ?case by (auto simp: label2id_snoc)
qed

lemma label2id_inverse_iff:
  "(\<forall>i < length xs. dict_of (map (\<lambda>(k, v). (v, k)) (enumerate 0 xs)) (xs ! i) = Some i)
     = distinct xs"
proof
  assume inv: "\<forall>i < length xs. dict_of (map (\<lambda>(k, v). (v, k)) (enumerate 0 xs)) (xs ! i) = Some i"
  show "distinct xs"
    unfolding distinct_conv_nth
  proof (intro allI impI)
    fix i j
    assume "i < length xs" "j < length xs" "i \<noteq> j"
    with inv show "xs ! i \<noteq> xs ! j" by (metis option.inject)
  qed
next
  assume d: "distinct xs"
  show "\<forall>i < length xs. dict_of (map (\<lambda>(k, v). (v, k)) (enumerate 0 xs)) (xs ! i) = Some i"
  proof (intro allI impI)
    fix i
    assume i: "i < length xs"
    then have "xs ! i \<in> set xs" by simp
    then obtain k where k: "dict_of (map (\<lambda>(k, v). (v, k)) (enumerate 0 xs)) (xs ! i) = Some k"
      using label2id_None [of xs "xs ! i"] by auto
    from label2id_Some [OF k] have "k < length xs" "xs ! k = xs ! i" by simp_all
    with d i have "k = i" by (simp add: nth_eq_iff_index_eq)
    with k show "dict_of (map (\<lambda>(k, v). (v, k)) (enumerate 0 xs)) (xs ! i) = Some i" by simp
  qed
qed

subsection \<open>When the tags are pairwise distinct\<close>

lemma all_str_map: "list_all is_str ls \<Longrightarrow> \<exists>ss. ls = map VStr ss"
proof (induction ls)
  case Nil
  show ?case by simp
next
  case (Cons v rest)
  then obtain ss where ss: "rest = map VStr ss" by auto
  from Cons.prems obtain s where "v = VStr s" by (cases v) (simp_all add: is_str_def)
  with ss have "v # rest = map VStr (s # ss)" by simp
  then show ?case by (rule exI [of _ "s # ss"])
qed

lemma bio_tags_VStr: "bio_tags upper (VStr l) = [''B-'' @ upper l, ''I-'' @ upper l]"
  by (simp add: bio_tags_def)

lemma filter_other_map:
  "filter (\<lambda>l. l \<noteq> VStr ''other'') (map VStr ss) = map VStr (filter (\<lambda>s. s \<noteq> ''other'') ss)"
  by (induction ss) simp_all

lemma B_in_tags:
  "(''B-'' @ u \<in> set (concat (map (bio_tags upper) (map VStr ss)))) = (u \<in> upper ` set ss)"
  by (induction ss) (auto simp: bio_tags_VStr)

lemma I_in_tags:
  "(''I-'' @ u \<in> set (concat (map (bio_tags upper) (map VStr ss)))) = (u \<in> upper ` set ss)"
  by (induction ss) (auto simp: bio_tags_VStr)

lemma O_notin_tags: "''O'' \<notin> set (concat (map (bio_tags upper) (map VStr ss)))"
  by (induction ss) (simp_all add: bio_tags_VStr)

lemma distinct_tags:
  "distinct (concat (map (bio_tags upper) (map VStr ss))) = distinct (map upper ss)"
proof (induction ss)
  case Nil
  show ?case by simp
next
  case (Cons s ss)
  have "distinct (concat (map (bio_tags upper) (map VStr (s # ss)))) =
        (''B-'' @ upper s \<notin> set (concat (map (bio_tags upper) (map VStr ss))) \<and>
         ''I-'' @ upper s \<notin> set (concat (map (bio_tags upper) (map VStr ss))) \<and>
         distinct (concat (map (bio_tags upper) (map VStr ss))))"
    by (auto simp: bio_tags_VStr)
  also have "\<dots> = (upper s \<notin> upper ` set ss \<and> distinct (map upper ss))"
    by (simp only: B_in_tags I_in_tags Cons.IH) blast
  finally show ?case by simp
qed

lemma count_list_distinct: "distinct xs \<Longrightarrow> count_list xs x = (if x \<in> set xs then 1 else 0)"
  by (induction xs) auto

lemma distinct_replicate_append:
  "distinct (replicate n x @ ys) = (n \<le> 1 \<and> (n = 1 \<longrightarrow> x \<notin> set ys) \<and> distinct ys)"
proof (cases n)
  case 0
  then show ?thesis by simp
next
  case (Suc m)
  then show ?thesis by (cases m) auto
qed

lemma distinct_bio_closed:
  assumes d: "distinct ss"
  shows "distinct (bio_closed upper [] (map VStr ss)) =
           inj_on upper {l \<in> set ss. l \<noteq> ''other''}"
proof -
  define fs where "fs = filter (\<lambda>s. s \<noteq> ''other'') ss"
  define T where "T = concat (map (bio_tags upper) (map VStr fs))"
  define c where "c = count_list (map VStr ss) (VStr ''other'')"
  from d have "distinct (map VStr ss)" by (simp add: distinct_map inj_on_def)
  then have c: "c \<le> 1" by (simp add: c_def count_list_distinct)
  have O: "''O'' \<notin> set T" unfolding T_def by (rule O_notin_tags)
  have "bio_closed upper [] (map VStr ss) = replicate c ''O'' @ T"
    by (simp add: bio_closed_def filter_other_map T_def fs_def c_def del: map_map)
  then have "distinct (bio_closed upper [] (map VStr ss)) = distinct T"
    using c O by (simp add: distinct_replicate_append del: distinct_append)
  also have "\<dots> = distinct (map upper fs)" unfolding T_def by (rule distinct_tags)
  also have "\<dots> = inj_on upper (set fs)" using d by (simp add: distinct_map fs_def)
  also have "set fs = {l \<in> set ss. l \<noteq> ''other''}" by (auto simp: fs_def)
  finally show ?thesis .
qed

subsection \<open>add_meta in closed form\<close>

lemma foldl_append_concat:
  "foldl (\<lambda>ls s. ls @ f s) acc xs = acc @ concat (map f xs)"
  by (induction xs arbitrary: acc) simp_all

lemma collect_labels_concat:
  "collect_labels sample = concat (map (\<lambda>s. labels (instances s)) sample)"
  by (simp add: collect_labels_def foldl_append_concat)

lemma get_bio_label_list_cases:
  "get_bio_label_list upper ls =
     (if list_all is_str ls then Inr (bio_closed upper [] ls) else Inl AttributeError)"
  by (simp add: get_bio_label_list_def bio_loop_ok bio_loop_fail)

lemma add_meta_cases:
  "add_meta set_order upper sample =
     (if \<not> list_all hashable (collect_labels sample) then Inl TypeError
      else if \<not> list_all is_str (set_order (collect_labels sample)) then Inl AttributeError
      else Inr \<lparr>metainfo =
                 \<lparr>meta_labels = set_order (collect_labels sample),
                  id2label = dict_of (enumerate 0
                    (bio_closed upper [] (set_order (collect_labels sample)))),
                  label2id = dict_of (map (\<lambda>(k, v). (v, k)) (enumerate 0
                    (bio_closed upper [] (set_order (collect_labels sample)))))\<rparr>,
               data_list = sample\<rparr>)"
  by (simp add: add_meta_def get_bio_label_list_cases Let_def)

lemma tags_adjacent:
  assumes "v \<in> set fl" and "bio_tags upper v = [b, i]"
  shows "\<exists>k. Suc k < length (P @ concat (map (bio_tags upper) fl)) \<and>
           (P @ concat (map (bio_tags upper) fl)) ! k = b \<and>
           (P @ concat (map (bio_tags upper) fl)) ! Suc k = i"
proof -
  from assms(1) obtain pre post where fl: "fl = pre @ v # post"
    by (auto dest: split_list)
  define Q where "Q = P @ concat (map (bio_tags upper) pre)"
  define R where "R = concat (map (bio_tags upper) post)"
  have eq: "P @ concat (map (bio_tags upper) fl) = Q @ b # i # R"
    by (simp add: fl Q_def R_def assms(2))
  have "Suc (length Q) < length (Q @ b # i # R)" by simp
  moreover have "(Q @ b # i # R) ! length Q = b" by simp
  moreover have "(Q @ b # i # R) ! Suc (length Q) = i"
    by (simp add: nth_append)
  ultimately show ?thesis unfolding eq by blast
qed

lemma count_list_O_tags:
  "list_all is_str fl \<Longrightarrow> count_list (concat (map (bio_tags upper) fl)) ''O'' = 0"
proof -
  assume "list_all is_str fl"
  then obtain ss where "fl = map VStr ss" using all_str_map by blast
  then show ?thesis using O_notin_tags [of upper ss] by (simp add: count_list_0_iff del: set_concat)
qed

lemma count_list_append: "count_list (xs @ ys) x = count_list xs x + count_list ys x"
  by (induction xs) simp_all

lemma count_list_replicate: "count_list (replicate n x) x = n"
  by (induction n) simp_all

lemma collect_doc_example:
  "collect_labels [doc_example] = [VStr ''question'', VStr ''other'']"
  by (simp add: collect_labels_def doc_example_def packed_def dict_get_def example_defs)

lemma add_meta_doc_example:
  "add_meta remdups ascii_upper [doc_example] =
     Inr \<lparr>metainfo =
            \<lparr>meta_labels = [VStr ''question'', VStr ''other''],
             id2label = dict_of (enumerate 0 [''O'', ''B-QUESTION'', ''I-QUESTION'']),
             label2id = dict_of (map (\<lambda>(k, v). (v, k))
               (enumerate 0 [''O'', ''B-QUESTION'', ''I-QUESTION'']))\<rparr>,
          data_list = [doc_example]\<rparr>"
  by (simp add: add_meta_def Let_def collect_doc_example get_bio_label_list_def bio_step_def
      ascii_upper_def upper_char_def)

lemma collect_doc_case_clash:
  "collect_labels [doc_case_clash] = [VStr ''answer'', VStr ''Answer'']"
  by (simp add: collect_labels_def doc_case_clash_def packed_def dict_get_def
      ins_answer_def ins_Answer_def)

lemma add_meta_doc_case_clash:
  "add_meta remdups ascii_upper [doc_case_clash] =
     Inr \<lparr>metainfo =
            \<lparr>meta_labels = [VStr ''answer'', VStr ''Answer''],
             id2label = dict_of (enumerate 0 [''B-ANSWER'', ''I-ANSWER'', ''B-ANSWER'', ''I-ANSWER'']),
             label2id = dict_of (map (\<lambda>(k, v). (v, k))
               (enumerate 0 [''B-ANSWER'', ''I-ANSWER'', ''B-ANSWER'', ''I-ANSWER'']))\<rparr>,
          data_list = [doc_case_clash]\<rparr>"
  by (simp add: add_meta_def Let_def collect_doc_case_clash get_bio_label_list_def bio_step_def
      ascii_upper_def upper_char_def)

lemma collect_doc_null_label:
  "collect_labels [doc_null_label] = [VStr ''question'', VNone]"
  by (simp add: collect_labels_def doc_null_label_def packed_def dict_get_def example_defs)

lemma label2id_last:
  "(dict_of (map (\<lambda>(k, v). (v, k)) (enumerate 0 xs)) t = Some k) =
     (k < length xs \<and> xs ! k = t \<and> (\<forall>j < length xs. xs ! j = t \<longrightarrow> j \<le> k))"
proof
  assume "dict_of (map (\<lambda>(k, v). (v, k)) (enumerate 0 xs)) t = Some k"
  then show "k < length xs \<and> xs ! k = t \<and> (\<forall>j < length xs. xs ! j = t \<longrightarrow> j \<le> k)"
    by (rule label2id_Some)
next
  assume last: "k < length xs \<and> xs ! k = t \<and> (\<forall>j < length xs. xs ! j = t \<longrightarrow> j \<le> k)"
  then have "t \<in> set xs" by auto
  then obtain k' where k': "dict_of (map (\<lambda>(k, v). (v, k)) (enumerate 0 xs)) t = Some k'"
    using label2id_None [of xs t] by auto
  from label2id_Some [OF k'] last have "k' \<le> k" and "k \<le> k'" by auto
  with k' show "dict_of (map (\<lambda>(k, v). (v, k)) (enumerate 0 xs)) t = Some k" by simp
qed

lemma add_meta_Inr:
  assumes "add_meta set_order upper sample = Inr env"
  shows "list_all hashable (collect_labels sample) \<and>
         get_bio_label_list upper (set_order (collect_labels sample)) =
           Inr (bio_closed upper [] (set_order (collect_labels sample))) \<and>
         env = \<lparr>metainfo =
                 \<lparr>meta_labels = set_order (collect_labels sample),
                  id2label = dict_of (enumerate 0
                    (bio_closed upper [] (set_order (collect_labels sample)))),
                  label2id = dict_of (map (\<lambda>(k, v). (v, k)) (enumerate 0
                    (bio_closed upper [] (set_order (collect_labels sample)))))\<rparr>,
               data_list = sample\<rparr>"
  using assms by (auto simp: add_meta_cases get_bio_label_list_cases split: if_splits)

section \<open>The claims on pack_instance\<close>

text \<open>
  Claim C10. For an empty instance list and a readable image, \<^verbatim>\<open>pack_instance\<close>
  succeeds, emits no warning and returns a document whose \<open>texts\<close>, \<open>boxes\<close> and
  \<open>labels\<close> are empty and which has the key \<open>words\<close>, holding the empty list: the
  condition of line 104 is true of the empty sequence.
\<close>

theorem C10_empty_instance_list:
  "imread path = Some (h, w) \<Longrightarrow>
   pack_instance imread relpath data_root (path, []) =
     ([], Inr \<lparr>instances = \<lparr>texts = [], boxes = [], labels = [], words = Some []\<rparr>,
               img_path = relpath path data_root, height = h, width = w\<rparr>)"
  by (simp add: pack_instance_def has_words_def init_state_def)

theorem C10_empty_instance_list_witness:
  "any_image (200, 100) ''root/imgs/x.jpg'' = Some (200, 100) \<and>
   pack_instance (any_image (200, 100)) relpath_under ''root'' (''root/imgs/x.jpg'', []) =
     ([], Inr \<lparr>instances = \<lparr>texts = [], boxes = [], labels = [], words = Some []\<rparr>,
               img_path = ''imgs/x.jpg'', height = 200, width = 100\<rparr>)"
proof -
  have h: "any_image (200, 100) ''root/imgs/x.jpg'' = Some (200, 100)"
    by (simp add: any_image_def)
  show ?thesis
    using h C10_empty_instance_list
      [of "any_image (200, 100)" "''root/imgs/x.jpg''" 200 100 relpath_under "''root''"]
    by (simp add: relpath_under_def)
qed

text \<open>
  Claim C2. The document \<^verbatim>\<open>pack_instance\<close> returns has the key \<open>words\<close> if and only
  if every instance of the input has the key \<open>words\<close>; when the key is there, its list
  has one entry for each instance, the value the instance stores under \<open>words\<close>, in
  the order of the input.
\<close>

theorem C2_words_key_iff:
  assumes "pack_instance imread relpath data_root (path, inss) = (ws, Inr doc)"
  shows "(words (instances doc) \<noteq> None) = (\<forall>ins \<in> set inss. ins ''words'' \<noteq> None) \<and>
         (\<forall>wl. words (instances doc) = Some wl \<longrightarrow>
            length wl = length inss \<and>
            (\<forall>i < length inss. (inss ! i) ''words'' = Some (wl ! i)))"
proof -
  from pack_instance_Inr [OF assms] obtain h w
    where doc: "doc = packed (relpath path data_root) h w inss" by blast
  have key: "(words (instances doc) \<noteq> None) = (\<forall>ins \<in> set inss. ins ''words'' \<noteq> None)"
    by (simp add: doc packed_def has_words_def list_all_iff)
  have vals: "length wl = length inss \<and> (\<forall>i < length inss. (inss ! i) ''words'' = Some (wl ! i))"
    if wl: "words (instances doc) = Some wl" for wl
  proof -
    from wl have hw: "has_words inss" and eq: "wl = map (\<lambda>i. dict_get i ''words'') inss"
      by (auto simp: doc packed_def split: if_splits)
    have "(inss ! i) ''words'' = Some (wl ! i)" if i: "i < length inss" for i
    proof -
      from hw i have "(inss ! i) ''words'' \<noteq> None"
        by (simp add: has_words_def list_all_length)
      then show ?thesis using i by (auto simp: eq dict_get_def)
    qed
    then show ?thesis by (simp add: eq)
  qed
  from key vals show ?thesis by blast
qed

theorem C2_words_key_iff_witness:
  "pack_instance (any_image (200, 100)) relpath_under ''root''
     (''root/imgs/x.jpg'', [ins_header_words, ins_no_label]) =
     ([], Inr (packed ''imgs/x.jpg'' 200 100 [ins_header_words, ins_no_label])) \<and>
   words (instances (packed ''imgs/x.jpg'' 200 100 [ins_header_words, ins_no_label])) =
     Some [word_c, VList []] \<and>
   ins_header_words ''words'' = Some word_c \<and> ins_no_label ''words'' = Some (VList [])"
proof -
  have run: "pack_instance (any_image (200, 100)) relpath_under ''root''
       (''root/imgs/x.jpg'', [ins_header_words, ins_no_label]) =
     ([], Inr (packed ''imgs/x.jpg'' 200 100 [ins_header_words, ins_no_label]))"
    by (simp add: pack_instance_def any_image_def has_words_def init_state_def pack_one_def
        dict_get_def relpath_under_def packed_def example_defs)
  show ?thesis
    using run C2_words_key_iff [OF run]
    by (simp add: packed_def has_words_def dict_get_def example_defs)
qed

text \<open>
  Claim C3. For every sample on which \<^verbatim>\<open>pack_instance\<close> does not fail, the lists
  \<open>texts\<close>, \<open>boxes\<close> and \<open>labels\<close> of the document have the length of the instance
  list, and so has \<open>words\<close> when the key is there; position \<open>i\<close> of each list holds
  what instance \<open>i\<close> of the input gives (\<^verbatim>\<open>None\<close> for an absent field).
\<close>

theorem C3_parallel_sequences:
  assumes "pack_instance imread relpath data_root (path, inss) = (ws, Inr doc)"
  shows "length (texts (instances doc)) = length inss \<and>
         length (boxes (instances doc)) = length inss \<and>
         length (labels (instances doc)) = length inss \<and>
         (\<forall>wl. words (instances doc) = Some wl \<longrightarrow> length wl = length inss) \<and>
         (\<forall>i < length inss.
            texts (instances doc) ! i = dict_get (inss ! i) ''text'' \<and>
            boxes (instances doc) ! i = dict_get (inss ! i) ''box'' \<and>
            labels (instances doc) ! i = dict_get (inss ! i) ''label'' \<and>
            (\<forall>wl. words (instances doc) = Some wl \<longrightarrow> wl ! i = dict_get (inss ! i) ''words''))"
proof -
  from pack_instance_Inr [OF assms] obtain h w
    where doc: "doc = packed (relpath path data_root) h w inss" by blast
  show ?thesis by (auto simp: doc packed_def split: if_splits)
qed

theorem C3_parallel_sequences_witness:
  "pack_instance (any_image (200, 100)) relpath_under ''root''
     (''root/imgs/x.jpg'', [ins_header_words, ins_no_label]) =
     ([], Inr (packed ''imgs/x.jpg'' 200 100 [ins_header_words, ins_no_label])) \<and>
   texts (instances (packed ''imgs/x.jpg'' 200 100 [ins_header_words, ins_no_label])) =
     [VStr ''c'', VStr ''d''] \<and>
   boxes (instances (packed ''imgs/x.jpg'' 200 100 [ins_header_words, ins_no_label])) =
     [VList [VInt 2, VInt 2, VInt 3, VInt 3], VNone] \<and>
   labels (instances (packed ''imgs/x.jpg'' 200 100 [ins_header_words, ins_no_label])) =
     [VStr ''header'', VNone] \<and>
   words (instances (packed ''imgs/x.jpg'' 200 100 [ins_header_words, ins_no_label])) =
     Some [word_c, VList []]"
proof -
  have run: "pack_instance (any_image (200, 100)) relpath_under ''root''
       (''root/imgs/x.jpg'', [ins_header_words, ins_no_label]) =
     ([], Inr (packed ''imgs/x.jpg'' 200 100 [ins_header_words, ins_no_label]))"
    by (simp add: pack_instance_def any_image_def has_words_def init_state_def pack_one_def
        dict_get_def relpath_under_def packed_def example_defs)
  show ?thesis
    using run C3_parallel_sequences [OF run]
    by (simp add: packed_def has_words_def dict_get_def example_defs)
qed

text \<open>
  Claim C5 says that the warning is emitted if and only if not every instance has a
  \<open>words\<close> entry and at least one instance has one. The two instances of the
  specification's end-to-end example have no \<open>words\<close> entry at all, and the warning
  is emitted: line 107 is the \<^verbatim>\<open>else\<close> of \<^verbatim>\<open>if has_words\<close>, with no further test.
\<close>

theorem C5_counterexample:
  "fst (pack_instance (any_image (200, 100)) relpath_under ''root''
          (''root/imgs/x.jpg'', [ins_question, ins_other])) = [words_warning] \<and>
   ins_question ''words'' = None \<and> ins_other ''words'' = None"
  by (simp add: pack_instance_def any_image_def has_words_def example_defs)

text \<open>
  Claim C5, amended. When the image is readable, the warning is emitted (once) if and
  only if at least one instance has no \<open>words\<close> entry, whether or not another
  instance has one; no warning is emitted if and only if every instance has the entry.
  The warning comes before the loop, so it is emitted also when an assertion fails
  afterwards.
\<close>

theorem C5_warning_iff_some_instance_lacks_words:
  assumes "imread path = Some (h, w)"
  shows "(fst (pack_instance imread relpath data_root (path, inss)) = [words_warning]) =
           (\<exists>ins \<in> set inss. ins ''words'' = None) \<and>
         (fst (pack_instance imread relpath data_root (path, inss)) = []) =
           (\<forall>ins \<in> set inss. ins ''words'' \<noteq> None)"
  using assms by (auto simp: pack_instance_def has_words_def list_all_iff Let_def)

theorem C5_warning_iff_some_instance_lacks_words_witness:
  "any_image (200, 100) ''root/imgs/x.jpg'' = Some (200, 100) \<and>
   fst (pack_instance (any_image (200, 100)) relpath_under ''root''
          (''root/imgs/x.jpg'', [ins_header_words, ins_question])) = [words_warning] \<and>
   ins_question ''words'' = None \<and>
   fst (pack_instance (any_image (200, 100)) relpath_under ''root''
          (''root/imgs/x.jpg'', [ins_header_words, ins_no_label])) = []"
proof -
  have h: "any_image (200, 100) ''root/imgs/x.jpg'' = Some (200, 100)"
    by (simp add: any_image_def)
  show ?thesis
    using h
      C5_warning_iff_some_instance_lacks_words
        [of "any_image (200, 100)" "''root/imgs/x.jpg''" 200 100 relpath_under "''root''"
            "[ins_header_words, ins_question]"]
      C5_warning_iff_some_instance_lacks_words
        [of "any_image (200, 100)" "''root/imgs/x.jpg''" 200 100 relpath_under "''root''"
            "[ins_header_words, ins_no_label]"]
    by (simp add: example_defs)
qed

text \<open>
  Claim C6. An instance whose \<open>text\<close>, \<open>box\<close> and \<open>label\<close> are all absent or empty
  fails the assertion of line 116: the loop body ends in \<^verbatim>\<open>AssertionError\<close>, and so does
  \<^verbatim>\<open>pack_instance\<close> on every instance list that holds such an instance (the image being
  readable), with no document returned. An instance with at least one of the three
  present and non-empty passes: its three values are appended to the lists (and its
  \<open>words\<close> when the document keeps them), an absent field as \<^verbatim>\<open>None\<close>; when all
  instances pass, the document of all of them is returned.
\<close>

theorem C6_assertion_on_empty_instance:
  "(\<not> truthy (dict_get ins ''text'') \<and> \<not> truthy (dict_get ins ''box'') \<and>
      \<not> truthy (dict_get ins ''label'') \<longrightarrow>
      pack_one hw st ins = Inl AssertionError \<and>
      (imread path = Some (h, w) \<and> ins \<in> set inss \<longrightarrow>
         snd (pack_instance imread relpath data_root (path, inss)) = Inl AssertionError)) \<and>
   (truthy (dict_get ins ''text'') \<or> truthy (dict_get ins ''box'') \<or>
      truthy (dict_get ins ''label'') \<longrightarrow>
      pack_one hw st ins =
        Inr (st\<lparr>texts_per_doc := texts_per_doc st @ [dict_get ins ''text''],
                boxes_per_doc := boxes_per_doc st @ [dict_get ins ''box''],
                labels_per_doc := labels_per_doc st @ [dict_get ins ''label''],
                words_per_doc :=
                  (if hw then map_option (\<lambda>ws. ws @ [dict_get ins ''words'']) (words_per_doc st)
                   else words_per_doc st)\<rparr>)) \<and>
   (imread path = Some (h, w) \<and>
      (\<forall>i \<in> set inss. truthy (dict_get i ''text'') \<or> truthy (dict_get i ''box'') \<or>
         truthy (dict_get i ''label'')) \<longrightarrow>
      snd (pack_instance imread relpath data_root (path, inss)) =
        Inr (packed (relpath path data_root) h w inss)) \<and>
   (ins k = None \<longrightarrow> dict_get ins k = VNone)"
proof (intro conjI impI)
  assume "\<not> truthy (dict_get ins ''text'') \<and> \<not> truthy (dict_get ins ''box'') \<and>
      \<not> truthy (dict_get ins ''label'')"
  then show "pack_one hw st ins = Inl AssertionError"
    by (simp add: pack_one_def Let_def)
next
  assume falsy: "\<not> truthy (dict_get ins ''text'') \<and> \<not> truthy (dict_get ins ''box'') \<and>
      \<not> truthy (dict_get ins ''label'')"
    and run: "imread path = Some (h, w) \<and> ins \<in> set inss"
  from falsy have "\<not> passes_check ins" by (simp add: passes_check_def)
  with run have "\<not> list_all passes_check inss" by (auto simp: list_all_iff)
  with run show "snd (pack_instance imread relpath data_root (path, inss)) = Inl AssertionError"
    by (simp add: pack_instance_fail)
next
  assume "truthy (dict_get ins ''text'') \<or> truthy (dict_get ins ''box'') \<or>
      truthy (dict_get ins ''label'')"
  then show "pack_one hw st ins =
        Inr (st\<lparr>texts_per_doc := texts_per_doc st @ [dict_get ins ''text''],
                boxes_per_doc := boxes_per_doc st @ [dict_get ins ''box''],
                labels_per_doc := labels_per_doc st @ [dict_get ins ''label''],
                words_per_doc :=
                  (if hw then map_option (\<lambda>ws. ws @ [dict_get ins ''words'']) (words_per_doc st)
                   else words_per_doc st)\<rparr>)"
    by (simp add: pack_one_def Let_def)
next
  assume run: "imread path = Some (h, w) \<and>
      (\<forall>i \<in> set inss. truthy (dict_get i ''text'') \<or> truthy (dict_get i ''box'') \<or>
         truthy (dict_get i ''label''))"
  then have "list_all passes_check inss" by (simp add: list_all_iff passes_check_def)
  with run show "snd (pack_instance imread relpath data_root (path, inss)) =
        Inr (packed (relpath path data_root) h w inss)"
    by (simp add: pack_instance_pass)
next
  assume "ins k = None"
  then show "dict_get ins k = VNone" by (simp add: dict_get_def)
qed

theorem C6_assertion_on_empty_instance_witness:
  "pack_one False (init_state False) ins_blank = Inl AssertionError \<and>
   snd (pack_instance (any_image (200, 100)) relpath_under ''root''
          (''root/imgs/x.jpg'', [ins_question, ins_blank])) = Inl AssertionError \<and>
   pack_one False (init_state False) ins_no_label =
     Inr \<lparr>texts_per_doc = [VStr ''d''], boxes_per_doc = [VNone], labels_per_doc = [VNone],
          words_per_doc = None\<rparr> \<and>
   snd (pack_instance (any_image (200, 100)) relpath_under ''root''
          (''root/imgs/x.jpg'', [ins_question, ins_no_label])) =
     Inr (packed ''imgs/x.jpg'' 200 100 [ins_question, ins_no_label]) \<and>
   ins_no_label ''label'' = None \<and> dict_get ins_no_label ''label'' = VNone"
  using
    C6_assertion_on_empty_instance
      [of ins_blank False "init_state False" "any_image (200, 100)" "''root/imgs/x.jpg''"
          200 100 "[ins_question, ins_blank]" relpath_under "''root''" "''label''"]
    C6_assertion_on_empty_instance
      [of ins_no_label False "init_state False" "any_image (200, 100)" "''root/imgs/x.jpg''"
          200 100 "[ins_question, ins_no_label]" relpath_under "''root''" "''label''"]
  by (simp add: any_image_def dict_get_def init_state_def relpath_under_def example_defs)

section \<open>The claims on add_meta\<close>

text \<open>
  Claim C4. In the BIO expansion a label equal to \<^verbatim>\<open>'other'\<close> puts the tag \<open>O\<close> in
  front of the list built so far, and any other label \<open>l\<close> appends \<open>B-\<close> and \<open>I-\<close>,
  each followed by \<open>l\<close> in upper case, in that order. So for a deduplicated label list that
  holds \<^verbatim>\<open>'other'\<close>, the result has \<open>O\<close> exactly once, at index 0 and so before every
  \<open>B-\<close> and \<open>I-\<close> tag; and for every other label of the list the result holds its
  \<open>B-\<close> tag directly followed by its \<open>I-\<close> tag.
\<close>

theorem C4_bio_expansion:
  assumes "get_bio_label_list upper org = Inr bio"
  shows "bio_step upper acc (VStr ''other'') = Inr (''O'' # acc) \<and>
         (l \<noteq> ''other'' \<longrightarrow>
            bio_step upper acc (VStr l) = Inr (acc @ [''B-'' @ upper l, ''I-'' @ upper l])) \<and>
         (distinct org \<and> VStr ''other'' \<in> set org \<longrightarrow>
            count_list bio ''O'' = 1 \<and>
            bio = ''O'' # concat (map (bio_tags upper) (removeAll (VStr ''other'') org)) \<and>
            (\<forall>j < length bio. (bio ! j = ''O'') = (j = 0))) \<and>
         (VStr l \<in> set org \<and> l \<noteq> ''other'' \<longrightarrow>
            (\<exists>k. Suc k < length bio \<and> bio ! k = ''B-'' @ upper l \<and>
                 bio ! Suc k = ''I-'' @ upper l))"
proof -
  from assms have str: "list_all is_str org" and bio: "bio = bio_closed upper [] org"
    by (auto simp: get_bio_label_list_cases split: if_splits)
  let ?fl = "filter (\<lambda>v. v \<noteq> VStr ''other'') org"
  let ?T = "concat (map (bio_tags upper) ?fl)"
  from str have strf: "list_all is_str ?fl" by (simp add: list_all_iff)
  have once: "count_list bio ''O'' = 1 \<and>
        bio = ''O'' # concat (map (bio_tags upper) (removeAll (VStr ''other'') org)) \<and>
        (\<forall>j < length bio. (bio ! j = ''O'') = (j = 0))"
    if d: "distinct org" and mem: "VStr ''other'' \<in> set org"
  proof -
    from d mem have c: "count_list org (VStr ''other'') = 1" by (simp add: count_list_distinct)
    have rm: "removeAll (VStr ''other'') org = ?fl" by (simp add: removeAll_filter_not_eq eq_commute)
    have b: "bio = ''O'' # ?T" by (simp add: bio bio_closed_def c)
    have cnt: "count_list bio ''O'' = 1"
      using count_list_O_tags [OF strf, of upper] by (simp add: b)
    have notO: "''O'' \<notin> set ?T"
      using count_list_O_tags [OF strf, of upper] unfolding count_list_0_iff .
    have pos: "(bio ! j = ''O'') = (j = 0)" if "j < length bio" for j
    proof (cases j)
      case 0
      then show ?thesis by (simp add: b)
    next
      case (Suc m)
      with that have "m < length ?T" by (simp add: b)
      then have "?T ! m \<in> set ?T" by (rule nth_mem)
      with notO have "?T ! m \<noteq> ''O''" by metis
      then show ?thesis by (simp add: b Suc)
    qed
    from cnt b pos show ?thesis by (simp only: rm) blast
  qed
  have adj: "\<exists>k. Suc k < length bio \<and> bio ! k = ''B-'' @ upper l \<and> bio ! Suc k = ''I-'' @ upper l"
    if mem: "VStr l \<in> set org" and l: "l \<noteq> ''other''"
  proof -
    from mem l have "VStr l \<in> set ?fl" by simp
    from tags_adjacent [OF this bio_tags_VStr,
        of "replicate (count_list org (VStr ''other'')) ''O''"]
    show ?thesis by (simp add: bio bio_closed_def)
  qed
  from once adj bio_step_other [of upper acc] bio_step_str [of l upper acc]
  show ?thesis by blast
qed

theorem C4_bio_expansion_witness:
  "get_bio_label_list ascii_upper [VStr ''question'', VStr ''other'', VStr ''header''] =
     Inr [''O'', ''B-QUESTION'', ''I-QUESTION'', ''B-HEADER'', ''I-HEADER''] \<and>
   bio_step ascii_upper [''B-QUESTION'', ''I-QUESTION''] (VStr ''other'') =
     Inr [''O'', ''B-QUESTION'', ''I-QUESTION''] \<and>
   bio_step ascii_upper [''B-QUESTION'', ''I-QUESTION''] (VStr ''header'') =
     Inr [''B-QUESTION'', ''I-QUESTION'', ''B-HEADER'', ''I-HEADER''] \<and>
   count_list [''O'', ''B-QUESTION'', ''I-QUESTION'', ''B-HEADER'', ''I-HEADER''] ''O'' = 1 \<and>
   (\<exists>k. Suc k < length [''O'', ''B-QUESTION'', ''I-QUESTION'', ''B-HEADER'', ''I-HEADER''] \<and>
      [''O'', ''B-QUESTION'', ''I-QUESTION'', ''B-HEADER'', ''I-HEADER''] ! k = ''B-HEADER'' \<and>
      [''O'', ''B-QUESTION'', ''I-QUESTION'', ''B-HEADER'', ''I-HEADER''] ! Suc k = ''I-HEADER'')"
proof -
  define org where "org = [VStr ''question'', VStr ''other'', VStr ''header'']"
  define bio where "bio = [''O'', ''B-QUESTION'', ''I-QUESTION'', ''B-HEADER'', ''I-HEADER'']"
  define acc where "acc = [''B-QUESTION'', ''I-QUESTION'']"
  have run: "get_bio_label_list ascii_upper org = Inr bio"
    by (simp add: org_def bio_def get_bio_label_list_def bio_step_def ascii_upper_def
        upper_char_def)
  have up: "ascii_upper ''header'' = ''HEADER''"
    by (simp add: ascii_upper_def upper_char_def)
  have h1: "''header'' \<noteq> ''other''" by simp
  have h2: "distinct org \<and> VStr ''other'' \<in> set org" by (simp add: org_def)
  have h3: "VStr ''header'' \<in> set org \<and> ''header'' \<noteq> ''other''" by (simp add: org_def)
  from C4_bio_expansion [OF run, where acc = acc and l = "''header''"] h1 h2 h3
  have "bio_step ascii_upper acc (VStr ''other'') = Inr (''O'' # acc) \<and>
        bio_step ascii_upper acc (VStr ''header'') =
          Inr (acc @ [''B-'' @ ascii_upper ''header'', ''I-'' @ ascii_upper ''header'']) \<and>
        count_list bio ''O'' = 1 \<and>
        (\<exists>k. Suc k < length bio \<and> bio ! k = ''B-'' @ ascii_upper ''header'' \<and>
           bio ! Suc k = ''I-'' @ ascii_upper ''header'')"
    by blast
  then have "bio_step ascii_upper acc (VStr ''other'') = Inr (''O'' # acc) \<and>
        bio_step ascii_upper acc (VStr ''header'') = Inr (acc @ [''B-HEADER'', ''I-HEADER'']) \<and>
        count_list bio ''O'' = 1 \<and>
        (\<exists>k. Suc k < length bio \<and> bio ! k = ''B-HEADER'' \<and> bio ! Suc k = ''I-HEADER'')"
    by (simp add: up)
  with run show ?thesis by (simp add: org_def bio_def acc_def)
qed

text \<open>
  Claim C7. The field \<open>data_list\<close> of the envelope \<^verbatim>\<open>add_meta\<close> returns is the input
  list, same documents in the same order. The method writes to two lists only,
  \<^verbatim>\<open>labels\<close> and \<^verbatim>\<open>bio_label_list\<close>, both created inside it, so no document changes.
\<close>

theorem C7_data_list_unchanged:
  "add_meta set_order upper sample = Inr env \<Longrightarrow> data_list env = sample"
  by (auto simp: add_meta_cases split: if_splits)

theorem C7_data_list_unchanged_witness:
  "\<not> isl (add_meta remdups ascii_upper [doc_example]) \<and>
   data_list (projr (add_meta remdups ascii_upper [doc_example])) = [doc_example]"
proof -
  have ok: "\<not> isl (add_meta remdups ascii_upper [doc_example])"
    by (simp add: add_meta_doc_example)
  then have run: "add_meta remdups ascii_upper [doc_example] =
      Inr (projr (add_meta remdups ascii_upper [doc_example]))" by simp
  from ok C7_data_list_unchanged [OF run] show ?thesis by simp
qed

text \<open>
  Claim C8. \<^verbatim>\<open>add_meta\<close> is deterministic given the order in which the label set is
  iterated. Two runs on the same document list whose set iteration gives the
  deduplicated labels in the same order end the same way: the same error, or the same
  envelope. What they return is fixed by that order: \<open>labels\<close> is the deduplicated
  list itself, \<open>data_list\<close> the input, \<open>id2label\<close> maps each index below the length of
  the BIO expansion of that list to the tag at the index and nothing else, and
  \<open>label2id\<close> maps each tag to the last index holding it. Two runs that both return
  give the same envelope only if they iterated in the same order.
\<close>

theorem C8_add_meta_deterministic:
  "(set_order1 (collect_labels sample) = set_order2 (collect_labels sample) \<longrightarrow>
      add_meta set_order1 upper sample = add_meta set_order2 upper sample) \<and>
   (add_meta set_order1 upper sample = Inr env1 \<and> add_meta set_order2 upper sample = Inr env2 \<longrightarrow>
      (env1 = env2) =
        (set_order1 (collect_labels sample) = set_order2 (collect_labels sample))) \<and>
   (add_meta set_order1 upper sample = Inr env1 \<longrightarrow>
      meta_labels (metainfo env1) = set_order1 (collect_labels sample) \<and>
      data_list env1 = sample \<and>
      (\<exists>bio. get_bio_label_list upper (set_order1 (collect_labels sample)) = Inr bio \<and>
         (\<forall>i. id2label (metainfo env1) i = (if i < length bio then Some (bio ! i) else None)) \<and>
         (\<forall>t k. (label2id (metainfo env1) t = Some k) =
            (k < length bio \<and> bio ! k = t \<and> (\<forall>j < length bio. bio ! j = t \<longrightarrow> j \<le> k)))))"
proof (intro conjI impI)
  assume "set_order1 (collect_labels sample) = set_order2 (collect_labels sample)"
  then show "add_meta set_order1 upper sample = add_meta set_order2 upper sample"
    by (simp add: add_meta_cases)
next
  assume runs: "add_meta set_order1 upper sample = Inr env1 \<and>
      add_meta set_order2 upper sample = Inr env2"
  show "(env1 = env2) =
      (set_order1 (collect_labels sample) = set_order2 (collect_labels sample))"
  proof
    assume "env1 = env2"
    then have "meta_labels (metainfo env1) = meta_labels (metainfo env2)" by simp
    moreover from runs add_meta_Inr [of set_order1 upper sample env1]
    have "meta_labels (metainfo env1) = set_order1 (collect_labels sample)" by simp
    moreover from runs add_meta_Inr [of set_order2 upper sample env2]
    have "meta_labels (metainfo env2) = set_order2 (collect_labels sample)" by simp
    ultimately show "set_order1 (collect_labels sample) = set_order2 (collect_labels sample)"
      by simp
  next
    assume "set_order1 (collect_labels sample) = set_order2 (collect_labels sample)"
    then have "add_meta set_order1 upper sample = add_meta set_order2 upper sample"
      by (simp add: add_meta_cases)
    with runs have "Inr env1 = (Inr env2 :: error + envelope)" by metis
    then show "env1 = env2" by simp
  qed
next
  assume run: "add_meta set_order1 upper sample = Inr env1"
  note E = add_meta_Inr [OF run]
  from E show "meta_labels (metainfo env1) = set_order1 (collect_labels sample)" by simp
  from E show "data_list env1 = sample" by simp
  let ?bio = "bio_closed upper [] (set_order1 (collect_labels sample))"
  from E have b: "get_bio_label_list upper (set_order1 (collect_labels sample)) = Inr ?bio"
    by simp
  from E have i2l: "\<forall>i. id2label (metainfo env1) i =
      (if i < length ?bio then Some (?bio ! i) else None)"
    by (simp add: id2label_nth)
  from E have l2i: "\<forall>t k. (label2id (metainfo env1) t = Some k) =
      (k < length ?bio \<and> ?bio ! k = t \<and> (\<forall>j < length ?bio. ?bio ! j = t \<longrightarrow> j \<le> k))"
    by (simp add: label2id_last)
  from b i2l l2i
  show "\<exists>bio. get_bio_label_list upper (set_order1 (collect_labels sample)) = Inr bio \<and>
         (\<forall>i. id2label (metainfo env1) i = (if i < length bio then Some (bio ! i) else None)) \<and>
         (\<forall>t k. (label2id (metainfo env1) t = Some k) =
            (k < length bio \<and> bio ! k = t \<and> (\<forall>j < length bio. bio ! j = t \<longrightarrow> j \<le> k)))"
    by blast
qed


theorem C8_add_meta_deterministic_witness:
  "remdups (collect_labels [doc_example]) = first_seen_order (collect_labels [doc_example]) \<and>
   add_meta remdups ascii_upper [doc_example] =
     add_meta first_seen_order ascii_upper [doc_example] \<and>
   \<not> isl (add_meta remdups ascii_upper [doc_example]) \<and>
   \<not> isl (add_meta reversed_order ascii_upper [doc_example]) \<and>
   remdups (collect_labels [doc_example]) \<noteq> reversed_order (collect_labels [doc_example]) \<and>
   projr (add_meta remdups ascii_upper [doc_example]) \<noteq>
     projr (add_meta reversed_order ascii_upper [doc_example]) \<and>
   meta_labels (metainfo (projr (add_meta remdups ascii_upper [doc_example]))) =
     [VStr ''question'', VStr ''other''] \<and>
   data_list (projr (add_meta remdups ascii_upper [doc_example])) = [doc_example] \<and>
   id2label (metainfo (projr (add_meta remdups ascii_upper [doc_example]))) 1 =
     Some ''B-QUESTION'' \<and>
   label2id (metainfo (projr (add_meta remdups ascii_upper [doc_example]))) ''B-QUESTION'' =
     Some 1"
proof -
  define ls where "ls = collect_labels [doc_example]"
  define E1 where "E1 = projr (add_meta remdups ascii_upper [doc_example])"
  define E2 where "E2 = projr (add_meta reversed_order ascii_upper [doc_example])"
  have ls: "ls = [VStr ''question'', VStr ''other'']"
    by (simp add: ls_def collect_doc_example)
  have same: "remdups ls = first_seen_order ls"
    by (simp add: ls first_seen_order_def)
  have diff: "remdups ls \<noteq> reversed_order ls"
    by (simp add: ls reversed_order_def)
  have ok1: "\<not> isl (add_meta remdups ascii_upper [doc_example])"
    by (simp add: add_meta_doc_example)
  have ok2: "\<not> isl (add_meta reversed_order ascii_upper [doc_example])"
    by (simp add: add_meta_cases collect_doc_example reversed_order_def is_str_def)
  from ok1 have run1: "add_meta remdups ascii_upper [doc_example] = Inr E1"
    by (simp add: E1_def)
  from ok2 have run2: "add_meta reversed_order ascii_upper [doc_example] = Inr E2"
    by (simp add: E2_def)
  have bio: "get_bio_label_list ascii_upper (remdups ls) =
      Inr [''O'', ''B-QUESTION'', ''I-QUESTION'']"
    by (simp add: ls get_bio_label_list_def bio_step_def ascii_upper_def upper_char_def)
  note A = C8_add_meta_deterministic
    [where ?set_order1.0 = remdups and ?set_order2.0 = first_seen_order
       and sample = "[doc_example]" and upper = ascii_upper and ?env1.0 = E1 and ?env2.0 = E1]
  note B = C8_add_meta_deterministic
    [where ?set_order1.0 = remdups and ?set_order2.0 = reversed_order
       and sample = "[doc_example]" and upper = ascii_upper and ?env1.0 = E1 and ?env2.0 = E2]
  from A same have eq: "add_meta remdups ascii_upper [doc_example] =
      add_meta first_seen_order ascii_upper [doc_example]"
    unfolding ls_def by blast
  from B run1 run2 diff have ne: "E1 \<noteq> E2"
    unfolding ls_def by blast
  from B run1 have ml: "meta_labels (metainfo E1) = remdups ls" and dl: "data_list E1 = [doc_example]"
    unfolding ls_def by blast+
  from B run1 obtain b where b: "get_bio_label_list ascii_upper (remdups ls) = Inr b"
    and i2l: "\<forall>i. id2label (metainfo E1) i = (if i < length b then Some (b ! i) else None)"
    and l2i: "\<forall>t k. (label2id (metainfo E1) t = Some k) =
        (k < length b \<and> b ! k = t \<and> (\<forall>j < length b. b ! j = t \<longrightarrow> j \<le> k))"
    unfolding ls_def by blast
  from b bio have bv: "b = [''O'', ''B-QUESTION'', ''I-QUESTION'']" by simp
  from i2l have n1: "id2label (metainfo E1) 1 = Some ''B-QUESTION''" by (simp add: bv)
  have "\<forall>j < length b. b ! j = ''B-QUESTION'' \<longrightarrow> j \<le> 1"
    by (simp add: bv less_Suc_eq nth_Cons')
  with l2i have l1: "label2id (metainfo E1) ''B-QUESTION'' = Some 1" by (simp add: bv)
  from ml have ml': "meta_labels (metainfo E1) = [VStr ''question'', VStr ''other'']"
    by (simp add: ls)
  from same [unfolded ls_def] eq ok1 ok2 diff [unfolded ls_def] ne [unfolded E1_def E2_def]
    ml' [unfolded E1_def] dl [unfolded E1_def] n1 [unfolded E1_def] l1 [unfolded E1_def]
  show ?thesis by blast
qed

text \<open>
  Claim C1 says that \<open>label2id\<close> is the inverse of \<open>id2label\<close> for every list of
  packed documents. A document with the labels \<^verbatim>\<open>'answer'\<close> and \<^verbatim>\<open>'Answer'\<close> refutes it:
  the two labels are different elements of the set and have the same upper-case form,
  so the tag list is \<open>B-ANSWER, I-ANSWER, B-ANSWER, I-ANSWER\<close> in either iteration
  order, \<open>id2label\<close> maps 0 to \<open>B-ANSWER\<close> and \<open>label2id\<close> maps \<open>B-ANSWER\<close> to 2.
\<close>

theorem C1_counterexample:
  "\<not> isl (add_meta remdups ascii_upper [doc_case_clash]) \<and>
   id2label (metainfo (projr (add_meta remdups ascii_upper [doc_case_clash]))) 0 =
     Some ''B-ANSWER'' \<and>
   label2id (metainfo (projr (add_meta remdups ascii_upper [doc_case_clash]))) ''B-ANSWER'' =
     Some 2"
  by (simp add: add_meta_doc_case_clash dict_of_def)

text \<open>
  Claim C1, amended. Whenever \<^verbatim>\<open>add_meta\<close> returns an envelope, the keys of
  \<open>id2label\<close> are exactly the numbers below the length of \<^verbatim>\<open>bio_label_list\<close>, with
  no gap, and \<open>id2label\<close> maps \<open>i\<close> to the tag at position \<open>i\<close>. \<open>label2id\<close> is the
  inverse of \<open>id2label\<close> (\<open>label2id[id2label[i]] == i\<close> for every \<open>i\<close>) if and only if
  no two different raw labels other than \<^verbatim>\<open>'other'\<close> have the same upper-case form.
\<close>

theorem C1_label2id_inverse_iff_tags_distinct:
  assumes run: "add_meta set_order upper sample = Inr env"
    and dedup: "dedup_of (collect_labels sample) (set_order (collect_labels sample))"
    and bio: "get_bio_label_list upper (set_order (collect_labels sample)) = Inr bio"
  shows "dom (id2label (metainfo env)) = {i. i < length bio} \<and>
         (\<forall>i < length bio. id2label (metainfo env) i = Some (bio ! i)) \<and>
         ((\<forall>i < length bio. \<exists>t. id2label (metainfo env) i = Some t \<and>
                                  label2id (metainfo env) t = Some i) =
          inj_on upper {l. VStr l \<in> set (collect_labels sample) \<and> l \<noteq> ''other''})"
proof -
  let ?org = "set_order (collect_labels sample)"
  from bio have str: "list_all is_str ?org" and b: "bio = bio_closed upper [] ?org"
    by (auto simp: get_bio_label_list_cases split: if_splits)
  from run str b have i2l: "id2label (metainfo env) = dict_of (enumerate 0 bio)"
    and l2i: "label2id (metainfo env) = dict_of (map (\<lambda>(k, v). (v, k)) (enumerate 0 bio))"
    by (auto simp: add_meta_cases split: if_splits)
  have nth: "id2label (metainfo env) i = (if i < length bio then Some (bio ! i) else None)" for i
    by (simp add: i2l id2label_nth)
  have dom: "dom (id2label (metainfo env)) = {i. i < length bio}"
    by (auto simp: nth dom_def)
  from str obtain ss where ss: "?org = map VStr ss" using all_str_map by blast
  from dedup have "distinct (map VStr ss)" and sets: "set (map VStr ss) = set (collect_labels sample)"
    by (simp_all add: dedup_of_def ss)
  then have dss: "distinct ss" by (simp add: distinct_map)
  have "(\<forall>i < length bio. \<exists>t. id2label (metainfo env) i = Some t \<and>
           label2id (metainfo env) t = Some i) =
        (\<forall>i < length bio. label2id (metainfo env) (bio ! i) = Some i)"
    by (simp add: nth)
  also have "\<dots> = distinct bio" by (simp only: l2i label2id_inverse_iff)
  also have "\<dots> = inj_on upper {l \<in> set ss. l \<noteq> ''other''}"
    by (simp only: b ss distinct_bio_closed [OF dss])
  also have "{l \<in> set ss. l \<noteq> ''other''} =
      {l. VStr l \<in> set (collect_labels sample) \<and> l \<noteq> ''other''}"
    using sets by auto
  finally have inv: "(\<forall>i < length bio. \<exists>t. id2label (metainfo env) i = Some t \<and>
           label2id (metainfo env) t = Some i) =
        inj_on upper {l. VStr l \<in> set (collect_labels sample) \<and> l \<noteq> ''other''}" .
  from dom nth inv show ?thesis by simp
qed

theorem C1_label2id_inverse_iff_tags_distinct_witness:
  "\<not> isl (add_meta remdups ascii_upper [doc_example]) \<and>
   get_bio_label_list ascii_upper (remdups (collect_labels [doc_example])) =
     Inr [''O'', ''B-QUESTION'', ''I-QUESTION''] \<and>
   dom (id2label (metainfo (projr (add_meta remdups ascii_upper [doc_example])))) =
     {i. i < length [''O'', ''B-QUESTION'', ''I-QUESTION'']} \<and>
   id2label (metainfo (projr (add_meta remdups ascii_upper [doc_example]))) 1 =
     Some ''B-QUESTION'' \<and>
   label2id (metainfo (projr (add_meta remdups ascii_upper [doc_example]))) ''B-QUESTION'' =
     Some 1 \<and>
   inj_on ascii_upper {l. VStr l \<in> set (collect_labels [doc_example]) \<and> l \<noteq> ''other''}"
proof -
  define env where "env = projr (add_meta remdups ascii_upper [doc_example])"
  define bio where "bio = [''O'', ''B-QUESTION'', ''I-QUESTION'']"
  have ok: "\<not> isl (add_meta remdups ascii_upper [doc_example])"
    by (simp add: add_meta_doc_example)
  then have run: "add_meta remdups ascii_upper [doc_example] = Inr env"
    by (simp add: env_def)
  have dedup: "dedup_of (collect_labels [doc_example]) (remdups (collect_labels [doc_example]))"
    by (simp add: dedup_of_def)
  have b: "get_bio_label_list ascii_upper (remdups (collect_labels [doc_example])) = Inr bio"
    by (simp add: bio_def collect_doc_example get_bio_label_list_def bio_step_def ascii_upper_def
        upper_char_def)
  have inj: "inj_on ascii_upper {l. VStr l \<in> set (collect_labels [doc_example]) \<and> l \<noteq> ''other''}"
    by (auto simp: collect_doc_example inj_on_def)
  note T = C1_label2id_inverse_iff_tags_distinct [OF run dedup b]
  from T have d: "dom (id2label (metainfo env)) = {i. i < length bio}" by blast
  from T have n: "\<forall>i < length bio. id2label (metainfo env) i = Some (bio ! i)" by blast
  from T inj have v: "\<forall>i < length bio. \<exists>t. id2label (metainfo env) i = Some t \<and>
      label2id (metainfo env) t = Some i" by blast
  from n have n1: "id2label (metainfo env) 1 = Some ''B-QUESTION''" by (simp add: bio_def)
  from v have "\<exists>t. id2label (metainfo env) 1 = Some t \<and> label2id (metainfo env) t = Some 1"
    by (simp add: bio_def)
  with n1 have l1: "label2id (metainfo env) ''B-QUESTION'' = Some 1" by simp
  from ok b d n1 l1 inj show ?thesis by (simp add: env_def bio_def)
qed

text \<open>
  Claim C9. \<^verbatim>\<open>pack_instance\<close> accepts an instance without a label when its text or its
  box is present and non-empty, and records \<^verbatim>\<open>None\<close> at its position of \<open>labels\<close>.
  On every document list in which some document has \<^verbatim>\<open>None\<close> among its labels,
  \<^verbatim>\<open>add_meta\<close> returns no envelope: the BIO expansion of the deduplicated labels ends in
  the \<^verbatim>\<open>AttributeError\<close> of calling \<^verbatim>\<open>upper\<close> on a label that is not a string, and
  that is the error of \<^verbatim>\<open>add_meta\<close> whenever the labels reach the expansion (all of
  them hashable).
\<close>

theorem C9_null_label_breaks_add_meta:
  "(imread path = Some (h, w) \<and> list_all passes_check inss \<and> i < length inss \<and>
      (inss ! i) ''label'' = None \<longrightarrow>
      (\<exists>doc. snd (pack_instance imread relpath data_root (path, inss)) = Inr doc \<and>
             labels (instances doc) ! i = VNone)) \<and>
   (truthy (dict_get ins ''text'') \<or> truthy (dict_get ins ''box'') \<longrightarrow> passes_check ins) \<and>
   (doc \<in> set sample \<and> VNone \<in> set (labels (instances doc)) \<and>
      set (set_order (collect_labels sample)) = set (collect_labels sample) \<longrightarrow>
      (\<exists>e. add_meta set_order upper sample = Inl e) \<and>
      get_bio_label_list upper (set_order (collect_labels sample)) = Inl AttributeError \<and>
      (list_all hashable (collect_labels sample) \<longrightarrow>
         add_meta set_order upper sample = Inl AttributeError))"
proof (intro conjI impI)
  assume a: "imread path = Some (h, w) \<and> list_all passes_check inss \<and> i < length inss \<and>
      (inss ! i) ''label'' = None"
  then have "snd (pack_instance imread relpath data_root (path, inss)) =
      Inr (packed (relpath path data_root) h w inss)"
    by (simp add: pack_instance_pass)
  moreover from a have "labels (instances (packed (relpath path data_root) h w inss)) ! i = VNone"
    by (simp add: packed_def dict_get_def)
  ultimately show "\<exists>doc. snd (pack_instance imread relpath data_root (path, inss)) = Inr doc \<and>
             labels (instances doc) ! i = VNone" by blast
next
  assume "truthy (dict_get ins ''text'') \<or> truthy (dict_get ins ''box'')"
  then show "passes_check ins" by (auto simp: passes_check_def)
next
  assume a: "doc \<in> set sample \<and> VNone \<in> set (labels (instances doc)) \<and>
      set (set_order (collect_labels sample)) = set (collect_labels sample)"
  then have "VNone \<in> set (collect_labels sample)"
    by (auto simp: collect_labels_concat)
  with a have "VNone \<in> set (set_order (collect_labels sample))" by simp
  moreover have "\<not> is_str VNone" by (simp add: is_str_def)
  ultimately have ns: "\<not> list_all is_str (set_order (collect_labels sample))"
    unfolding list_all_iff by blast
  show "\<exists>e. add_meta set_order upper sample = Inl e"
    using ns by (simp add: add_meta_cases)
  show "get_bio_label_list upper (set_order (collect_labels sample)) = Inl AttributeError"
    using ns by (simp add: get_bio_label_list_cases)
  show "add_meta set_order upper sample = Inl AttributeError"
    if "list_all hashable (collect_labels sample)"
    using ns that by (simp add: add_meta_cases)
qed

theorem C9_null_label_breaks_add_meta_witness:
  "snd (pack_instance (any_image (200, 100)) relpath_under ''root''
          (''root/imgs/z.jpg'', [ins_question, ins_no_label])) = Inr doc_null_label \<and>
   ins_no_label ''label'' = None \<and> passes_check ins_no_label \<and>
   labels (instances doc_null_label) ! 1 = VNone \<and>
   get_bio_label_list ascii_upper (remdups (collect_labels [doc_null_label])) =
     Inl AttributeError \<and>
   add_meta remdups ascii_upper [doc_null_label] = Inl AttributeError"
proof -
  note T = C9_null_label_breaks_add_meta
    [where imread = "any_image (200, 100)" and path = "''root/imgs/z.jpg''" and h = 200
       and w = 100 and inss = "[ins_question, ins_no_label]" and i = 1
       and relpath = relpath_under and data_root = "''root''" and ins = ins_no_label
       and doc = doc_null_label and sample = "[doc_null_label]" and set_order = remdups
       and upper = ascii_upper]
  have run: "snd (pack_instance (any_image (200, 100)) relpath_under ''root''
          (''root/imgs/z.jpg'', [ins_question, ins_no_label])) = Inr doc_null_label"
    by (simp add: pack_instance_def any_image_def has_words_def init_state_def pack_one_def
        dict_get_def relpath_under_def doc_null_label_def packed_def example_defs)
  have nl: "ins_no_label ''label'' = None" by (simp add: example_defs)
  have pre1: "any_image (200, 100) ''root/imgs/z.jpg'' = Some (200, 100) \<and>
      list_all passes_check [ins_question, ins_no_label] \<and>
      1 < length [ins_question, ins_no_label] \<and>
      ([ins_question, ins_no_label] ! 1) ''label'' = None"
    by (simp add: any_image_def passes_check_def dict_get_def example_defs)
  have pre2: "truthy (dict_get ins_no_label ''text'') \<or> truthy (dict_get ins_no_label ''box'')"
    by (simp add: dict_get_def example_defs)
  have pre3: "doc_null_label \<in> set [doc_null_label] \<and>
      VNone \<in> set (labels (instances doc_null_label)) \<and>
      set (remdups (collect_labels [doc_null_label])) = set (collect_labels [doc_null_label])"
    by (simp add: doc_null_label_def packed_def dict_get_def example_defs)
  have hs: "list_all hashable (collect_labels [doc_null_label])"
    by (simp add: collect_doc_null_label)
  from T pre1 have "\<exists>doc. snd (pack_instance (any_image (200, 100)) relpath_under ''root''
        (''root/imgs/z.jpg'', [ins_question, ins_no_label])) = Inr doc \<and>
      labels (instances doc) ! 1 = VNone" by blast
  with run have c1: "labels (instances doc_null_label) ! 1 = VNone" by simp
  from T pre2 have c2: "passes_check ins_no_label" by blast
  from T pre3 hs
  have c3: "get_bio_label_list ascii_upper (remdups (collect_labels [doc_null_label])) =
          Inl AttributeError \<and>
        add_meta remdups ascii_upper [doc_null_label] = Inl AttributeError"
    by blast
  from run nl c1 c2 c3 show ?thesis by simp
qed

end
